theory Spec2Isabelle
  imports Main
begin

unbundle bit_operations_syntax

section \<open>Extendible hash table of project2/container/hash/extendible_hash_table.cpp\<close>

text \<open>
  The controller \<^verbatim>\<open>ExtendibleHashTable\<close> (GetValue, Insert, SplitInsert, Remove, Merge,
  GetGlobalDepth, VerifyIntegrity) is embedded from the source file.  The directory page,
  the bucket page and the buffer pool manager are classes whose code is not part of the
  source file; they are modelled from the specification (sections 3, 4.1, 4.2 and 6) and
  each such definition says so.

  The model is sequential: the table latch, the page latches and the directory mutex are
  not represented.  An \<^verbatim>\<open>assert\<close> that fails aborts the process; it is the \<open>Inl\<close>
  branch of every result.  Unsigned 32-bit indices are natural numbers: no index of the
  controller exceeds the directory size, which is at most \<open>2 ^ MAX_BUCKET_DEPTH\<close>.
\<close>

subsection \<open>Constants\<close>

type_synonym page_id_t = int

definition INVALID_PAGE_ID :: page_id_t where
  "INVALID_PAGE_ID = - 1"

text \<open>
  \<^verbatim>\<open>BUCKET_ARRAY_SIZE\<close> and \<^verbatim>\<open>MAX_BUCKET_DEPTH\<close> are macros of a header that is not part
  of the source file, and the hash function is a constructor argument of the table: the
  three are parameters of the model.
\<close>

record 'k params =
  BUCKET_ARRAY_SIZE :: nat
  MAX_BUCKET_DEPTH :: nat
  hash_fn :: "'k \<Rightarrow> nat"

datatype abort =
  DirectoryPageInvalid
  | UnpinFailed
  | DeleteFailed
  | TargetPageMismatch
  | ReinsertFailed
  | MergeDepthMismatch
  | IntegrityViolated

subsection \<open>Bucket page\<close>

text \<open>
  Modelled from the spec: the bucket page class (section 3, "Bucket page", and the
  contracts of section 4.2).  A slot that was never used has neither bit set, a slot that
  is occupied but not readable is a tombstone, a readable slot holds a live pair.
\<close>

datatype ('k, 'v) slot = Unused | Tombstone | Live 'k 'v

type_synonym ('k, 'v) bucket = "('k, 'v) slot list"

fun IsReadable :: "('k, 'v) slot \<Rightarrow> bool" where
  "IsReadable (Live k v) = True"
| "IsReadable Unused = False"
| "IsReadable Tombstone = False"

text \<open>Modelled from the spec: \<open>is_full\<close>, full iff all slots are readable.\<close>

definition bucket_IsFull :: "('k, 'v) bucket \<Rightarrow> bool" where
  "bucket_IsFull b = list_all IsReadable b"

text \<open>Modelled from the spec: \<open>is_empty\<close>, empty iff no slot is readable.\<close>

definition bucket_IsEmpty :: "('k, 'v) bucket \<Rightarrow> bool" where
  "bucket_IsEmpty b = (filter IsReadable b = [])"

text \<open>Modelled from the spec: \<open>num_readable\<close>, the count of readable slots.\<close>

definition bucket_NumReadable :: "('k, 'v) bucket \<Rightarrow> nat" where
  "bucket_NumReadable b = length (filter IsReadable b)"

text \<open>Modelled from the spec: \<open>array_copy\<close>, a snapshot of all currently readable pairs.\<close>

fun bucket_GetArrayCopy :: "('k, 'v) bucket \<Rightarrow> ('k \<times> 'v) list" where
  "bucket_GetArrayCopy [] = []"
| "bucket_GetArrayCopy (Live k v # b) = (k, v) # bucket_GetArrayCopy b"
| "bucket_GetArrayCopy (Unused # b) = bucket_GetArrayCopy b"
| "bucket_GetArrayCopy (Tombstone # b) = bucket_GetArrayCopy b"

text \<open>Modelled from the spec: \<open>reset\<close>, clears all occupied and readable bits.\<close>

definition bucket_Reset :: "('k, 'v) bucket \<Rightarrow> ('k, 'v) bucket" where
  "bucket_Reset b = map (\<lambda>x. Unused) b"

text \<open>
  Modelled from the spec: \<open>lookup\<close>, every value whose slot is readable and whose key
  compares equal.  The source passes the result vector as an out-parameter and reads a
  boolean back: the values are appended to \<open>result\<close>, the boolean says whether one was
  found.
\<close>

definition bucket_GetValue ::
  "'k \<Rightarrow> ('k, 'v) bucket \<Rightarrow> 'v list \<Rightarrow> bool \<times> 'v list" where
  "bucket_GetValue key b result =
     (let found = map snd (filter (\<lambda>kv. fst kv = key) (bucket_GetArrayCopy b))
      in (found \<noteq> [], result @ found))"

fun write_first_free :: "'k \<Rightarrow> 'v \<Rightarrow> ('k, 'v) bucket \<Rightarrow> ('k, 'v) bucket" where
  "write_first_free k v [] = []"
| "write_first_free k v (x # b) =
     (if IsReadable x then x # write_first_free k v b else Live k v # b)"

text \<open>
  Modelled from the spec: \<open>insert\<close>, false if the exact pair already exists or the bucket
  is full; otherwise the pair is written into the first non-readable slot.
\<close>

definition bucket_Insert ::
  "'k \<Rightarrow> 'v \<Rightarrow> ('k, 'v) bucket \<Rightarrow> bool \<times> ('k, 'v) bucket" where
  "bucket_Insert key v b =
     (if (key, v) \<in> set (bucket_GetArrayCopy b) \<or> bucket_IsFull b then (False, b)
      else (True, write_first_free key v b))"

fun clear_first_match :: "'k \<Rightarrow> 'v \<Rightarrow> ('k, 'v) bucket \<Rightarrow> ('k, 'v) bucket" where
  "clear_first_match k v [] = []"
| "clear_first_match k v (x # b) =
     (if x = Live k v then Tombstone # b else x # clear_first_match k v b)"

text \<open>
  Modelled from the spec: \<open>remove\<close>, clears the readable bit of the first matching slot;
  false if no slot matches.
\<close>

definition bucket_Remove ::
  "'k \<Rightarrow> 'v \<Rightarrow> ('k, 'v) bucket \<Rightarrow> bool \<times> ('k, 'v) bucket" where
  "bucket_Remove key v b =
     (if (key, v) \<in> set (bucket_GetArrayCopy b) then (True, clear_first_match key v b)
      else (False, b))"

subsection \<open>Directory page\<close>

text \<open>
  Modelled from the spec: the directory page class (section 3 and the contracts of
  section 4.1): its own page id, the global depth, and the two parallel arrays of local
  depths and bucket page ids, indexed by slot.  The arrays are total functions of the
  slot index; the slots at and above \<open>size()\<close> are the unused part of the page.
\<close>

record directory =
  page_id :: page_id_t
  global_depth :: nat
  local_depths :: "nat \<Rightarrow> nat"
  bucket_page_ids :: "nat \<Rightarrow> page_id_t"

definition dir_GetPageId :: "directory \<Rightarrow> page_id_t" where
  "dir_GetPageId d = page_id d"

definition dir_SetPageId :: "directory \<Rightarrow> page_id_t \<Rightarrow> directory" where
  "dir_SetPageId d p = d\<lparr>page_id := p\<rparr>"

definition dir_GetGlobalDepth :: "directory \<Rightarrow> nat" where
  "dir_GetGlobalDepth d = global_depth d"

text \<open>Modelled from the spec: \<open>global_depth_mask() = (1 << gd) - 1\<close>.\<close>

definition dir_GetGlobalDepthMask :: "directory \<Rightarrow> nat" where
  "dir_GetGlobalDepthMask d = 2 ^ global_depth d - 1"

text \<open>Modelled from the spec: \<open>size() = 1 << gd\<close>.\<close>

definition dir_Size :: "directory \<Rightarrow> nat" where
  "dir_Size d = 2 ^ global_depth d"

definition dir_GetLocalDepth :: "directory \<Rightarrow> nat \<Rightarrow> nat" where
  "dir_GetLocalDepth d i = local_depths d i"

definition dir_SetLocalDepth :: "directory \<Rightarrow> nat \<Rightarrow> nat \<Rightarrow> directory" where
  "dir_SetLocalDepth d i l = d\<lparr>local_depths := (local_depths d)(i := l)\<rparr>"

text \<open>Modelled from the spec: \<open>local_depth_mask(i) = (1 << local_depth[i]) - 1\<close>.\<close>

definition dir_GetLocalDepthMask :: "directory \<Rightarrow> nat \<Rightarrow> nat" where
  "dir_GetLocalDepthMask d i = 2 ^ local_depths d i - 1"

definition dir_GetBucketPageId :: "directory \<Rightarrow> nat \<Rightarrow> page_id_t" where
  "dir_GetBucketPageId d i = bucket_page_ids d i"

definition dir_SetBucketPageId :: "directory \<Rightarrow> nat \<Rightarrow> page_id_t \<Rightarrow> directory" where
  "dir_SetBucketPageId d i p = d\<lparr>bucket_page_ids := (bucket_page_ids d)(i := p)\<rparr>"

text \<open>
  Modelled from the spec: incrementing \<open>gd\<close> from \<open>k\<close> to \<open>k + 1\<close> duplicates the entries
  \<open>[0, 2^k)\<close> into \<open>[2^k, 2^(k+1))\<close>; decrementing halves the logical array.
\<close>

definition dir_IncrGlobalDepth :: "directory \<Rightarrow> directory" where
  "dir_IncrGlobalDepth d =
     (let n = 2 ^ global_depth d in
      d\<lparr>global_depth := global_depth d + 1,
        local_depths := (\<lambda>i. if n \<le> i \<and> i < 2 * n then local_depths d (i - n)
                             else local_depths d i),
        bucket_page_ids := (\<lambda>i. if n \<le> i \<and> i < 2 * n then bucket_page_ids d (i - n)
                                else bucket_page_ids d i)\<rparr>)"

definition dir_DecrGlobalDepth :: "directory \<Rightarrow> directory" where
  "dir_DecrGlobalDepth d = d\<lparr>global_depth := global_depth d - 1\<rparr>"

definition dir_IncrLocalDepth :: "directory \<Rightarrow> nat \<Rightarrow> directory" where
  "dir_IncrLocalDepth d i = d\<lparr>local_depths := (local_depths d)(i := local_depths d i + 1)\<rparr>"

definition dir_DecrLocalDepth :: "directory \<Rightarrow> nat \<Rightarrow> directory" where
  "dir_DecrLocalDepth d i = d\<lparr>local_depths := (local_depths d)(i := local_depths d i - 1)\<rparr>"

text \<open>
  Modelled from the spec: \<open>split_image_index(i) = i XOR (1 << (local_depth[i] - 1))\<close>,
  whose contract asks for \<open>local_depth[i] \<ge> 1\<close>.  Merge calls it before it tests the local
  depth for 0 and does not use the result in that case; here the exponent stops at 0.
\<close>

definition dir_GetSplitImageIndex :: "directory \<Rightarrow> nat \<Rightarrow> nat" where
  "dir_GetSplitImageIndex d i = i XOR 2 ^ (local_depths d i - 1)"

text \<open>Modelled from the spec: \<open>can_shrink()\<close>, true iff every local depth is below \<open>gd\<close>.\<close>

definition dir_CanShrink :: "directory \<Rightarrow> bool" where
  "dir_CanShrink d = list_all (\<lambda>i. local_depths d i < global_depth d) [0..<dir_Size d]"

text \<open>
  Modelled from the spec: \<open>verify_integrity()\<close> asserts the aliasing invariant: every local
  depth is at most \<open>gd\<close>, exactly \<open>2^(gd - local_depth[i])\<close> slots point at the bucket page
  of slot \<open>i\<close>, and all of them have the local depth of slot \<open>i\<close>.
\<close>

definition dir_VerifyIntegrity :: "directory \<Rightarrow> bool" where
  "dir_VerifyIntegrity d =
     list_all (\<lambda>i.
        local_depths d i \<le> global_depth d \<and>
        length (filter (\<lambda>j. bucket_page_ids d j = bucket_page_ids d i) [0..<dir_Size d])
          = 2 ^ (global_depth d - local_depths d i) \<and>
        list_all (\<lambda>j. local_depths d j = local_depths d i)
          (filter (\<lambda>j. bucket_page_ids d j = bucket_page_ids d i) [0..<dir_Size d]))
       [0..<dir_Size d]"

text \<open>A page as NewPage hands it out: all bytes zero.\<close>

definition zero_directory :: directory where
  "zero_directory =
     \<lparr>page_id = 0, global_depth = 0, local_depths = (\<lambda>i. 0), bucket_page_ids = (\<lambda>i. 0)\<rparr>"

subsection \<open>Table state and buffer pool\<close>

text \<open>
  The state the controller works on: its member \<^verbatim>\<open>directory_page_id_\<close>, and the pages of
  the buffer pool it reaches through \<^verbatim>\<open>buffer_pool_manager_\<close>.  The data of the directory
  page is \<open>dir_page\<close>; the data of every other page, read as a bucket, is \<open>bucket_pages\<close>.
  The source reads a page's bytes through a cast; that a bucket page id could name the
  directory page itself is a matter of memory layout and is not represented.

  Modelled from the spec: the buffer pool manager (section 6).  \<open>NewPage\<close> allocates the
  next page id and pins the page, whose data is zero; \<open>FetchPage\<close> pins; \<open>UnpinPage\<close>
  decrements the pin count and marks the page dirty if requested, and returns false for a
  page that is not pinned; \<open>DeletePage\<close> requires pin count zero.  The pool is unbounded:
  \<open>NewPage\<close> and \<open>FetchPage\<close> never return null, so the \<^verbatim>\<open>assert(page != nullptr)\<close> of the
  source never fails here.
\<close>

record ('k, 'v) hash_table =
  directory_page_id :: page_id_t
  dir_page :: directory
  bucket_pages :: "page_id_t \<Rightarrow> ('k, 'v) bucket"
  pin_count :: "page_id_t \<Rightarrow> nat"
  is_dirty :: "page_id_t \<Rightarrow> bool"
  next_page_id :: page_id_t
  deleted_pages :: "page_id_t list"

definition NewPage ::
  "'k params \<Rightarrow> ('k, 'v) hash_table \<Rightarrow> page_id_t \<times> ('k, 'v) hash_table" where
  "NewPage P s =
     (let p = next_page_id s in
      (p, s\<lparr>next_page_id := p + 1,
            pin_count := (pin_count s)(p := pin_count s p + 1),
            bucket_pages := (bucket_pages s)(p := replicate (BUCKET_ARRAY_SIZE P) Unused)\<rparr>))"

definition FetchPage :: "page_id_t \<Rightarrow> ('k, 'v) hash_table \<Rightarrow> ('k, 'v) hash_table" where
  "FetchPage p s = s\<lparr>pin_count := (pin_count s)(p := pin_count s p + 1)\<rparr>"

definition UnpinPage ::
  "page_id_t \<Rightarrow> bool \<Rightarrow> ('k, 'v) hash_table \<Rightarrow> bool \<times> ('k, 'v) hash_table" where
  "UnpinPage p dirty s =
     (if pin_count s p = 0 then (False, s)
      else (True, s\<lparr>pin_count := (pin_count s)(p := pin_count s p - 1),
                   is_dirty := (is_dirty s)(p := (is_dirty s p \<or> dirty))\<rparr>))"

definition DeletePage ::
  "page_id_t \<Rightarrow> ('k, 'v) hash_table \<Rightarrow> bool \<times> ('k, 'v) hash_table" where
  "DeletePage p s =
     (if pin_count s p = 0 then (True, s\<lparr>deleted_pages := p # deleted_pages s\<rparr>)
      else (False, s))"

text \<open>\<^verbatim>\<open>assert(buffer_pool_manager_->UnpinPage(id, dirty))\<close>.\<close>

definition assert_UnpinPage ::
  "page_id_t \<Rightarrow> bool \<Rightarrow> ('k, 'v) hash_table \<Rightarrow> abort + ('k, 'v) hash_table" where
  "assert_UnpinPage p dirty s =
     (if fst (UnpinPage p dirty s) then Inr (snd (UnpinPage p dirty s)) else Inl UnpinFailed)"

text \<open>\<^verbatim>\<open>assert(buffer_pool_manager_->DeletePage(id))\<close>.\<close>

definition assert_DeletePage ::
  "page_id_t \<Rightarrow> ('k, 'v) hash_table \<Rightarrow> abort + ('k, 'v) hash_table" where
  "assert_DeletePage p s =
     (if fst (DeletePage p s) then Inr (snd (DeletePage p s)) else Inl DeleteFailed)"

text \<open>A table as the constructor leaves it: no directory yet, nothing pinned.\<close>

definition new_table :: "('k, 'v) hash_table" where
  "new_table =
     \<lparr>directory_page_id = INVALID_PAGE_ID, dir_page = zero_directory,
      bucket_pages = (\<lambda>p. []), pin_count = (\<lambda>p. 0), is_dirty = (\<lambda>p. False),
      next_page_id = 0, deleted_pages = []\<rparr>"

subsection \<open>Helpers of the controller\<close>

text \<open>\<^verbatim>\<open>Hash\<close>: the 64-bit hash downcast to 32 bits.\<close>

definition Hash :: "'k params \<Rightarrow> 'k \<Rightarrow> nat" where
  "Hash P key = hash_fn P key mod 2 ^ 32"

definition KeyToDirectoryIndex :: "'k params \<Rightarrow> 'k \<Rightarrow> directory \<Rightarrow> nat" where
  "KeyToDirectoryIndex P key d = Hash P key AND dir_GetGlobalDepthMask d"

definition KeyToPageId :: "'k params \<Rightarrow> 'k \<Rightarrow> directory \<Rightarrow> page_id_t" where
  "KeyToPageId P key d = dir_GetBucketPageId d (KeyToDirectoryIndex P key d)"

text \<open>
  Lines 72 to 89 of \<^verbatim>\<open>FetchDirectoryPage\<close>: the directory page and the first bucket page
  are created, and both are unpinned dirty.
\<close>

definition create_directory ::
  "'k params \<Rightarrow> ('k, 'v) hash_table \<Rightarrow> abort + ('k, 'v) hash_table" where
  "create_directory P s =
     (let (new_page_id_dir, s1) = NewPage P s;
          s2 = s1\<lparr>directory_page_id := new_page_id_dir,
                  dir_page := dir_SetPageId zero_directory new_page_id_dir\<rparr>;
          (new_page_id_buc, s3) = NewPage P s2;
          s4 = s3\<lparr>dir_page := dir_SetBucketPageId (dir_page s3) 0 new_page_id_buc\<rparr>
      in (case assert_UnpinPage new_page_id_dir True s4 of
            Inl e \<Rightarrow> Inl e
          | Inr s5 \<Rightarrow> assert_UnpinPage new_page_id_buc True s5))"

text \<open>
  \<^verbatim>\<open>FetchDirectoryPage\<close>: the pointer it returns is the data of the directory page, which
  is \<open>dir_page\<close> of the state returned here.
\<close>

definition FetchDirectoryPage ::
  "'k params \<Rightarrow> ('k, 'v) hash_table \<Rightarrow> abort + ('k, 'v) hash_table" where
  "FetchDirectoryPage P s =
     (case (if directory_page_id s = INVALID_PAGE_ID then create_directory P s else Inr s) of
        Inl e \<Rightarrow> Inl e
      | Inr s1 \<Rightarrow>
          if directory_page_id s1 = INVALID_PAGE_ID then Inl DirectoryPageInvalid
          else Inr (FetchPage (directory_page_id s1) s1))"

definition FetchBucketPage :: "page_id_t \<Rightarrow> ('k, 'v) hash_table \<Rightarrow> ('k, 'v) hash_table" where
  "FetchBucketPage bucket_page_id s = FetchPage bucket_page_id s"

definition GetBucketPageData :: "('k, 'v) hash_table \<Rightarrow> page_id_t \<Rightarrow> ('k, 'v) bucket" where
  "GetBucketPageData s p = bucket_pages s p"

text \<open>A write through the bucket pointer of a pinned page.\<close>

definition SetBucketPageData ::
  "page_id_t \<Rightarrow> ('k, 'v) bucket \<Rightarrow> ('k, 'v) hash_table \<Rightarrow> ('k, 'v) hash_table" where
  "SetBucketPageData p b s = s\<lparr>bucket_pages := (bucket_pages s)(p := b)\<rparr>"

subsection \<open>Search\<close>

definition GetValue ::
  "'k params \<Rightarrow> 'k \<Rightarrow> 'v list \<Rightarrow> ('k, 'v) hash_table
     \<Rightarrow> abort + ((bool \<times> 'v list) \<times> ('k, 'v) hash_table)" where
  "GetValue P key result s =
     (case FetchDirectoryPage P s of
        Inl e \<Rightarrow> Inl e
      | Inr s1 \<Rightarrow>
          let bucket_page_id = KeyToPageId P key (dir_page s1);
              s2 = FetchBucketPage bucket_page_id s1;
              ret = bucket_GetValue key (GetBucketPageData s2 bucket_page_id) result
          in (case assert_UnpinPage bucket_page_id False s2 of
                Inl e \<Rightarrow> Inl e
              | Inr s3 \<Rightarrow>
                  (case assert_UnpinPage (dir_GetPageId (dir_page s3)) False s3 of
                     Inl e \<Rightarrow> Inl e
                   | Inr s4 \<Rightarrow> Inr (ret, s4))))"

subsection \<open>Insertion\<close>

text \<open>
  Lines 159 to 179 of \<^verbatim>\<open>Insert\<close>, everything before the call of \<^verbatim>\<open>SplitInsert\<close>.
  \<open>Some ret\<close>: the bucket was not full and \<^verbatim>\<open>Insert\<close> returns \<open>ret\<close>.  \<open>None\<close>: the bucket
  was full, both pages are unpinned clean and \<^verbatim>\<open>SplitInsert\<close> is called next.
\<close>

definition Insert_bucket ::
  "'k params \<Rightarrow> 'k \<Rightarrow> 'v \<Rightarrow> ('k, 'v) hash_table
     \<Rightarrow> abort + (bool option \<times> ('k, 'v) hash_table)" where
  "Insert_bucket P key v s =
     (case FetchDirectoryPage P s of
        Inl e \<Rightarrow> Inl e
      | Inr s1 \<Rightarrow>
          let bucket_page_id = KeyToPageId P key (dir_page s1);
              s2 = FetchBucketPage bucket_page_id s1;
              bucket = GetBucketPageData s2 bucket_page_id
          in if \<not> bucket_IsFull bucket then
               (let r = bucket_Insert key v bucket;
                    s3 = SetBucketPageData bucket_page_id (snd r) s2
                in (case assert_UnpinPage bucket_page_id True s3 of
                      Inl e \<Rightarrow> Inl e
                    | Inr s4 \<Rightarrow>
                        (case assert_UnpinPage (dir_GetPageId (dir_page s4)) False s4 of
                           Inl e \<Rightarrow> Inl e
                         | Inr s5 \<Rightarrow> Inr (Some (fst r), s5))))
             else
               (case assert_UnpinPage bucket_page_id False s2 of
                  Inl e \<Rightarrow> Inl e
                | Inr s3 \<Rightarrow>
                    (case assert_UnpinPage (dir_GetPageId (dir_page s3)) False s3 of
                       Inl e \<Rightarrow> Inl e
                     | Inr s4 \<Rightarrow> Inr (None, s4))))"

text \<open>
  The loops of lines 230 to 245.  \<open>rewire_down\<close> is
  \<^verbatim>\<open>for (i = start; i >= diff; i -= diff)\<close> and \<open>rewire_up\<close> is
  \<^verbatim>\<open>for (i = start; i < dir_page->Size(); i += diff)\<close>, each with the body
  \<^verbatim>\<open>SetBucketPageId(i, p); SetLocalDepth(i, GetLocalDepth(split_bucket_index))\<close>,
  which is \<open>rewire_slot\<close>.
  \<open>diff\<close> is a power of two in every call, so the test \<open>0 < diff\<close> is always true; it is
  there for the functions to be total.
\<close>

definition rewire_slot :: "page_id_t \<Rightarrow> nat \<Rightarrow> nat \<Rightarrow> directory \<Rightarrow> directory" where
  "rewire_slot p split_bucket_index i d =
     (let d1 = dir_SetBucketPageId d i p
      in dir_SetLocalDepth d1 i (dir_GetLocalDepth d1 split_bucket_index))"

function rewire_down :: "nat \<Rightarrow> page_id_t \<Rightarrow> nat \<Rightarrow> nat \<Rightarrow> directory \<Rightarrow> directory" where
  "rewire_down diff p split_bucket_index i d =
     (if 0 < diff \<and> diff \<le> i then
        rewire_down diff p split_bucket_index (i - diff) (rewire_slot p split_bucket_index i d)
      else d)"
  by pat_completeness auto
termination
  by (relation "measure (\<lambda>(diff, p, split_bucket_index, i, d). i)") auto

function rewire_up :: "nat \<Rightarrow> page_id_t \<Rightarrow> nat \<Rightarrow> nat \<Rightarrow> directory \<Rightarrow> directory" where
  "rewire_up diff p split_bucket_index i d =
     (if 0 < diff \<and> i < dir_Size d then
        rewire_up diff p split_bucket_index (i + diff) (rewire_slot p split_bucket_index i d)
      else d)"
  by pat_completeness auto
termination
  by (relation "measure (\<lambda>(diff, p, split_bucket_index, i, d). dir_Size d - i)")
     (auto simp: dir_Size_def rewire_slot_def Let_def dir_SetLocalDepth_def
       dir_SetBucketPageId_def)

text \<open>
  Lines 223 to 245 of \<^verbatim>\<open>SplitInsert\<close>: the directory entry of the split image, and the
  four loops over the slots of the same level.
\<close>

definition rewire_directory ::
  "directory \<Rightarrow> nat \<Rightarrow> page_id_t \<Rightarrow> page_id_t \<Rightarrow> directory" where
  "rewire_directory d split_bucket_index split_bucket_page_id image_bucket_page_id =
     (let split_image_bucket_index = dir_GetSplitImageIndex d split_bucket_index;
          d1 = dir_SetLocalDepth d split_image_bucket_index
                 (dir_GetLocalDepth d split_bucket_index);
          d2 = dir_SetBucketPageId d1 split_image_bucket_index image_bucket_page_id;
          diff = 2 ^ dir_GetLocalDepth d2 split_bucket_index;
          d3 = rewire_down diff split_bucket_page_id split_bucket_index split_bucket_index d2;
          d4 = rewire_up diff split_bucket_page_id split_bucket_index split_bucket_index d3;
          d5 = rewire_down diff image_bucket_page_id split_bucket_index
                 split_image_bucket_index d4
      in rewire_up diff image_bucket_page_id split_bucket_index split_image_bucket_index d5)"

text \<open>
  Lines 248 to 261 of \<^verbatim>\<open>SplitInsert\<close>: the loop that inserts the saved pairs again, with
  its three assertions.
\<close>

fun reinsert ::
  "'k params \<Rightarrow> nat \<Rightarrow> page_id_t \<Rightarrow> page_id_t \<Rightarrow> ('k \<times> 'v) list
     \<Rightarrow> ('k, 'v) hash_table \<Rightarrow> abort + ('k, 'v) hash_table" where
  "reinsert P split_bucket_index split_bucket_page_id image_bucket_page_id [] s = Inr s"
| "reinsert P split_bucket_index split_bucket_page_id image_bucket_page_id (tmp # rest) s =
     (let target_bucket_index =
            Hash P (fst tmp) AND dir_GetLocalDepthMask (dir_page s) split_bucket_index;
          target_bucket_index_page = dir_GetBucketPageId (dir_page s) target_bucket_index
      in if target_bucket_index_page = split_bucket_page_id
            \<or> target_bucket_index_page = image_bucket_page_id then
           (let p = (if target_bucket_index_page = split_bucket_page_id
                     then split_bucket_page_id else image_bucket_page_id);
                r = bucket_Insert (fst tmp) (snd tmp) (GetBucketPageData s p)
            in if fst r then
                 reinsert P split_bucket_index split_bucket_page_id image_bucket_page_id rest
                   (SetBucketPageData p (snd r) s)
               else Inl ReinsertFailed)
         else Inl TargetPageMismatch)"

text \<open>
  Lines 199 to 205 of \<^verbatim>\<open>SplitInsert\<close>: the directory doubles when the local depth of
  the slot equals the global depth, and the local depth of the slot is incremented.
\<close>

definition grow_directory :: "directory \<Rightarrow> nat \<Rightarrow> nat \<Rightarrow> directory" where
  "grow_directory d split_bucket_index split_bucket_depth =
     dir_IncrLocalDepth
       (if split_bucket_depth = dir_GetGlobalDepth d then dir_IncrGlobalDepth d else d)
       split_bucket_index"

text \<open>
  Lines 207 to 245 of \<^verbatim>\<open>SplitInsert\<close>: the bucket of the key is fetched, its pairs are
  saved and it is reset; the image page is allocated; the directory is rewired.  The
  result is the split page id, the image page id, the saved pairs (the first
  \<^verbatim>\<open>origin_array_size\<close> entries of \<^verbatim>\<open>origin_array\<close>) and the state.
\<close>

definition split_bucket_pages ::
  "'k params \<Rightarrow> 'k \<Rightarrow> nat \<Rightarrow> ('k, 'v) hash_table
     \<Rightarrow> page_id_t \<times> page_id_t \<times> ('k \<times> 'v) list \<times> ('k, 'v) hash_table" where
  "split_bucket_pages P key split_bucket_index s =
     (let split_bucket_page_id = KeyToPageId P key (dir_page s);
          s2 = FetchBucketPage split_bucket_page_id s;
          split_bucket = GetBucketPageData s2 split_bucket_page_id;
          origin_array_size = bucket_NumReadable split_bucket;
          origin_array = bucket_GetArrayCopy split_bucket;
          s3 = SetBucketPageData split_bucket_page_id (bucket_Reset split_bucket) s2;
          (image_bucket_page_id, s4) = NewPage P s3;
          s5 = s4\<lparr>dir_page := rewire_directory (dir_page s4) split_bucket_index
                                  split_bucket_page_id image_bucket_page_id\<rparr>
      in (split_bucket_page_id, image_bucket_page_id,
          take origin_array_size origin_array, s5))"

text \<open>Lines 264 to 270 of \<^verbatim>\<open>SplitInsert\<close>: the three pages are unpinned dirty.\<close>

definition unpin_split_pages ::
  "page_id_t \<Rightarrow> page_id_t \<Rightarrow> ('k, 'v) hash_table \<Rightarrow> abort + ('k, 'v) hash_table" where
  "unpin_split_pages split_bucket_page_id image_bucket_page_id s =
     (case assert_UnpinPage split_bucket_page_id True s of
        Inl e \<Rightarrow> Inl e
      | Inr s1 \<Rightarrow>
          (case assert_UnpinPage image_bucket_page_id True s1 of
             Inl e \<Rightarrow> Inl e
           | Inr s2 \<Rightarrow> assert_UnpinPage (dir_GetPageId (dir_page s2)) True s2))"

text \<open>
  Lines 186 to 270 of \<^verbatim>\<open>SplitInsert\<close>, everything before the final call of \<^verbatim>\<open>Insert\<close>.
  \<open>False\<close>: the local depth has reached \<^verbatim>\<open>MAX_BUCKET_DEPTH\<close> and \<^verbatim>\<open>SplitInsert\<close> returns
  false.  \<open>True\<close>: the bucket was split and \<^verbatim>\<open>Insert\<close> is called next.
\<close>

definition SplitInsert_split ::
  "'k params \<Rightarrow> 'k \<Rightarrow> ('k, 'v) hash_table \<Rightarrow> abort + (bool \<times> ('k, 'v) hash_table)" where
  "SplitInsert_split P key s =
     (case FetchDirectoryPage P s of
        Inl e \<Rightarrow> Inl e
      | Inr s1 \<Rightarrow>
          let split_bucket_index = KeyToDirectoryIndex P key (dir_page s1);
              split_bucket_depth = dir_GetLocalDepth (dir_page s1) split_bucket_index
          in if MAX_BUCKET_DEPTH P \<le> split_bucket_depth then
               (case assert_UnpinPage (dir_GetPageId (dir_page s1)) False s1 of
                  Inl e \<Rightarrow> Inl e
                | Inr s2 \<Rightarrow> Inr (False, s2))
             else
               (case split_bucket_pages P key split_bucket_index
                       (s1\<lparr>dir_page := grow_directory (dir_page s1) split_bucket_index
                                          split_bucket_depth\<rparr>) of
                  (split_bucket_page_id, image_bucket_page_id, origin_array, s5) \<Rightarrow>
                    (case reinsert P split_bucket_index split_bucket_page_id
                            image_bucket_page_id origin_array s5 of
                       Inl e \<Rightarrow> Inl e
                     | Inr s6 \<Rightarrow>
                         (case unpin_split_pages split_bucket_page_id image_bucket_page_id s6 of
                            Inl e \<Rightarrow> Inl e
                          | Inr s9 \<Rightarrow> Inr (True, s9)))))"

subsection \<open>Merge and removal\<close>

text \<open>
  The loop of lines 373 to 378 of \<^verbatim>\<open>Merge\<close>: every slot that points at the target page
  or at the image page is pointed at the image page and given the local depth of the
  target slot.
\<close>

function merge_rewire ::
  "page_id_t \<Rightarrow> page_id_t \<Rightarrow> nat \<Rightarrow> nat \<Rightarrow> directory \<Rightarrow> directory" where
  "merge_rewire target_bucket_page_id image_bucket_page_id target_bucket_index i d =
     (if i < dir_Size d then
        merge_rewire target_bucket_page_id image_bucket_page_id target_bucket_index (i + 1)
          (if dir_GetBucketPageId d i = target_bucket_page_id
              \<or> dir_GetBucketPageId d i = image_bucket_page_id then
             rewire_slot image_bucket_page_id target_bucket_index i d
           else d)
      else d)"
  by pat_completeness auto
termination
  by (relation "measure (\<lambda>(tp, ip, t, i, d). dir_Size d - i)")
     (auto simp: dir_Size_def rewire_slot_def Let_def dir_SetLocalDepth_def
       dir_SetBucketPageId_def)

lemma dir_CanShrink_global_depth: "dir_CanShrink d \<Longrightarrow> 0 < global_depth d"
proof -
  assume a: "dir_CanShrink d"
  have "0 \<in> set [0..<dir_Size d]"
    by (simp add: dir_Size_def)
  with a have "local_depths d 0 < global_depth d"
    unfolding dir_CanShrink_def list_all_iff by blast
  then show ?thesis by simp
qed

text \<open>The loop of lines 382 to 384: \<^verbatim>\<open>while (dir_page->CanShrink()) DecrGlobalDepth()\<close>.\<close>

function shrink_directory :: "directory \<Rightarrow> directory" where
  "shrink_directory d =
     (if dir_CanShrink d then shrink_directory (dir_DecrGlobalDepth d) else d)"
  by pat_completeness auto
termination
  by (relation "measure global_depth")
     (auto simp: dir_DecrGlobalDepth_def dest: dir_CanShrink_global_depth)

definition Merge ::
  "'k params \<Rightarrow> nat \<Rightarrow> ('k, 'v) hash_table \<Rightarrow> abort + ('k, 'v) hash_table" where
  "Merge P target_bucket_index s =
     (case FetchDirectoryPage P s of
        Inl e \<Rightarrow> Inl e
      | Inr s1 \<Rightarrow>
          let target_bucket_page_id = dir_GetBucketPageId (dir_page s1) target_bucket_index;
              image_bucket_index = dir_GetSplitImageIndex (dir_page s1) target_bucket_index;
              local_depth = dir_GetLocalDepth (dir_page s1) target_bucket_index
          in if local_depth = 0 then
               assert_UnpinPage (dir_GetPageId (dir_page s1)) False s1
             else if local_depth \<noteq> dir_GetLocalDepth (dir_page s1) image_bucket_index then
               assert_UnpinPage (dir_GetPageId (dir_page s1)) False s1
             else
               (let s2 = FetchBucketPage target_bucket_page_id s1
                in if \<not> bucket_IsEmpty (GetBucketPageData s2 target_bucket_page_id) then
                     (case assert_UnpinPage target_bucket_page_id False s2 of
                        Inl e \<Rightarrow> Inl e
                      | Inr s3 \<Rightarrow> assert_UnpinPage (dir_GetPageId (dir_page s3)) False s3)
                   else
                     (case assert_UnpinPage target_bucket_page_id False s2 of
                        Inl e \<Rightarrow> Inl e
                      | Inr s3 \<Rightarrow>
                          (case assert_DeletePage target_bucket_page_id s3 of
                             Inl e \<Rightarrow> Inl e
                           | Inr s4 \<Rightarrow>
                               (let image_bucket_page_id =
                                      dir_GetBucketPageId (dir_page s4) image_bucket_index;
                                    d1 = dir_SetBucketPageId (dir_page s4) target_bucket_index
                                           image_bucket_page_id;
                                    d2 = dir_DecrLocalDepth d1 target_bucket_index;
                                    d3 = dir_DecrLocalDepth d2 image_bucket_index
                                in if dir_GetLocalDepth d3 target_bucket_index
                                        = dir_GetLocalDepth d3 image_bucket_index then
                                     (let d4 = merge_rewire target_bucket_page_id
                                                 image_bucket_page_id target_bucket_index 0 d3;
                                          d5 = shrink_directory d4
                                      in assert_UnpinPage (dir_GetPageId d5) True
                                           (s4\<lparr>dir_page := d5\<rparr>))
                                   else Inl MergeDepthMismatch)))))"

definition Remove ::
  "'k params \<Rightarrow> 'k \<Rightarrow> 'v \<Rightarrow> ('k, 'v) hash_table
     \<Rightarrow> abort + (bool \<times> ('k, 'v) hash_table)" where
  "Remove P key v s =
     (case FetchDirectoryPage P s of
        Inl e \<Rightarrow> Inl e
      | Inr s1 \<Rightarrow>
          let bucket_page_id = KeyToPageId P key (dir_page s1);
              bucket_index = KeyToDirectoryIndex P key (dir_page s1);
              s2 = FetchBucketPage bucket_page_id s1;
              r = bucket_Remove key v (GetBucketPageData s2 bucket_page_id);
              s3 = SetBucketPageData bucket_page_id (snd r) s2
          in if bucket_IsEmpty (GetBucketPageData s3 bucket_page_id) then
               (case assert_UnpinPage bucket_page_id True s3 of
                  Inl e \<Rightarrow> Inl e
                | Inr s4 \<Rightarrow>
                    (case assert_UnpinPage (dir_GetPageId (dir_page s4)) False s4 of
                       Inl e \<Rightarrow> Inl e
                     | Inr s5 \<Rightarrow>
                         (case Merge P bucket_index s5 of
                            Inl e \<Rightarrow> Inl e
                          | Inr s6 \<Rightarrow> Inr (fst r, s6))))
             else
               (case assert_UnpinPage bucket_page_id True s3 of
                  Inl e \<Rightarrow> Inl e
                | Inr s4 \<Rightarrow>
                    (case assert_UnpinPage (dir_GetPageId (dir_page s4)) False s4 of
                       Inl e \<Rightarrow> Inl e
                     | Inr s5 \<Rightarrow> Inr (fst r, s5))))"

subsection \<open>GetGlobalDepth and VerifyIntegrity\<close>

definition GetGlobalDepth ::
  "'k params \<Rightarrow> ('k, 'v) hash_table \<Rightarrow> abort + (nat \<times> ('k, 'v) hash_table)" where
  "GetGlobalDepth P s =
     (case FetchDirectoryPage P s of
        Inl e \<Rightarrow> Inl e
      | Inr s1 \<Rightarrow>
          (case assert_UnpinPage (directory_page_id s1) False s1 of
             Inl e \<Rightarrow> Inl e
           | Inr s2 \<Rightarrow> Inr (dir_GetGlobalDepth (dir_page s1), s2)))"

definition VerifyIntegrity ::
  "'k params \<Rightarrow> ('k, 'v) hash_table \<Rightarrow> abort + ('k, 'v) hash_table" where
  "VerifyIntegrity P s =
     (case FetchDirectoryPage P s of
        Inl e \<Rightarrow> Inl e
      | Inr s1 \<Rightarrow>
          if dir_VerifyIntegrity (dir_page s1) then
            assert_UnpinPage (directory_page_id s1) False s1
          else Inl IntegrityViolated)"

subsection \<open>Auxiliary facts and the recursion of Insert and SplitInsert\<close>

lemma and_mask_mod: "(x::nat) AND (2 ^ n - 1) = x mod 2 ^ n"
  by (metis mask_eq_exp_minus_1 take_bit_eq_mask take_bit_eq_mod)

lemma and_mask_mod_Suc: "(x::nat) AND (2 ^ n - Suc 0) = x mod 2 ^ n"
  using and_mask_mod [of x n] by simp

lemma xor_pow2_low: "(i::nat) < 2 ^ n \<Longrightarrow> i XOR 2 ^ n = i + 2 ^ n"
proof -
  assume a: "i < 2 ^ n"
  then have "\<not> bit i n" by (simp add: bit_iff_odd)
  then have "i AND 2 ^ n = 0" by (simp add: and_exp_eq_0_iff_not_bit)
  then show ?thesis by (simp add: disjunctive_add_eq_xor)
qed

lemma mod_pow2_Suc:
  "(h::nat) mod 2 ^ Suc n = h mod 2 ^ n \<or> h mod 2 ^ Suc n = h mod 2 ^ n + 2 ^ n"
  using take_bit_Suc_from_most [of n h] by (cases "bit h n") (simp_all add: take_bit_eq_mod)

lemma assert_UnpinPage_Inr:
  "(assert_UnpinPage p dty s = Inr s') =
     (pin_count s p \<noteq> 0 \<and>
      s' = s\<lparr>pin_count := (pin_count s)(p := pin_count s p - 1),
             is_dirty := (is_dirty s)(p := (is_dirty s p \<or> dty))\<rparr>)"
  by (auto simp: assert_UnpinPage_def UnpinPage_def)

lemma create_directory_Inr:
  "create_directory P s = Inr s' \<Longrightarrow>
     directory_page_id s' = next_page_id s \<and>
     next_page_id s' = next_page_id s + 2 \<and>
     dir_page s' = \<lparr>page_id = next_page_id s, global_depth = 0, local_depths = (\<lambda>i. 0),
                     bucket_page_ids = (\<lambda>i. 0)(0 := next_page_id s + 1)\<rparr> \<and>
     pin_count s' = pin_count s \<and>
     deleted_pages s' = deleted_pages s \<and>
     bucket_pages s' = (bucket_pages s)
        (next_page_id s := replicate (BUCKET_ARRAY_SIZE P) Unused,
         next_page_id s + 1 := replicate (BUCKET_ARRAY_SIZE P) Unused) \<and>
     is_dirty s' = (is_dirty s)(next_page_id s := True, next_page_id s + 1 := True)"
  by (auto simp: create_directory_def NewPage_def Let_def assert_UnpinPage_Inr
      dir_SetPageId_def dir_SetBucketPageId_def zero_directory_def
      split: sum.splits)


declare rewire_down.simps [simp del] rewire_up.simps [simp del] merge_rewire.simps [simp del]
  shrink_directory.simps [simp del]

lemma FetchDirectoryPage_valid:
  "directory_page_id s \<noteq> INVALID_PAGE_ID \<Longrightarrow>
     FetchDirectoryPage P s = Inr (FetchPage (directory_page_id s) s)"
  by (simp add: FetchDirectoryPage_def)

lemma FetchDirectoryPage_Inr:
  "FetchDirectoryPage P s = Inr s1 \<Longrightarrow>
     directory_page_id s1 \<noteq> INVALID_PAGE_ID \<and>
     deleted_pages s1 = deleted_pages s \<and>
     pin_count s1 = (pin_count s)(directory_page_id s1 := pin_count s (directory_page_id s1) + 1)"
  by (auto simp: FetchDirectoryPage_def FetchPage_def split: if_splits sum.splits
      dest!: create_directory_Inr)

lemma FetchDirectoryPage_fresh:
  "FetchDirectoryPage P s = Inr s1 \<Longrightarrow> directory_page_id s = INVALID_PAGE_ID \<Longrightarrow>
     directory_page_id s1 = next_page_id s \<and>
     next_page_id s1 = next_page_id s + 2 \<and>
     dir_page s1 = \<lparr>page_id = next_page_id s, global_depth = 0, local_depths = (\<lambda>i. 0),
                     bucket_page_ids = (\<lambda>i. 0)(0 := next_page_id s + 1)\<rparr> \<and>
     bucket_pages s1 = (bucket_pages s)
        (next_page_id s := replicate (BUCKET_ARRAY_SIZE P) Unused,
         next_page_id s + 1 := replicate (BUCKET_ARRAY_SIZE P) Unused) \<and>
     is_dirty s1 = (is_dirty s)(next_page_id s := True, next_page_id s + 1 := True)"
  by (auto simp: FetchDirectoryPage_def FetchPage_def split: if_splits sum.splits
      dest!: create_directory_Inr)

definition key_depth :: "'k params \<Rightarrow> 'k \<Rightarrow> ('k, 'v) hash_table \<Rightarrow> nat" where
  "key_depth P key s =
     dir_GetLocalDepth (dir_page s) (KeyToDirectoryIndex P key (dir_page s))"

definition split_room :: "'k params \<Rightarrow> 'k \<Rightarrow> ('k, 'v) hash_table \<Rightarrow> nat" where
  "split_room P key s =
     MAX_BUCKET_DEPTH P -
       (if directory_page_id s = INVALID_PAGE_ID then 0 else key_depth P key s)"

lemma FetchDirectoryPage_key_depth:
  "FetchDirectoryPage P s = Inr s1 \<Longrightarrow>
     key_depth P key s1 =
       (if directory_page_id s = INVALID_PAGE_ID then 0 else key_depth P key s)"
  by (cases "directory_page_id s = INVALID_PAGE_ID")
     (auto simp: key_depth_def dir_GetLocalDepth_def FetchDirectoryPage_valid FetchPage_def
       dest: FetchDirectoryPage_fresh)

lemma FetchDirectoryPage_room:
  "FetchDirectoryPage P s = Inr s1 \<Longrightarrow>
     split_room P key s1 = split_room P key s \<and> directory_page_id s1 \<noteq> INVALID_PAGE_ID"
  using FetchDirectoryPage_key_depth [of P s s1 key] FetchDirectoryPage_Inr [of P s s1]
  by (simp add: split_room_def)

lemma Insert_bucket_None:
  "Insert_bucket P key v s = Inr (None, s') \<Longrightarrow>
     \<exists>s1. FetchDirectoryPage P s = Inr s1 \<and>
          dir_page s' = dir_page s1 \<and> directory_page_id s' = directory_page_id s1 \<and>
          bucket_pages s' = bucket_pages s1 \<and> next_page_id s' = next_page_id s1 \<and>
          bucket_IsFull (bucket_pages s1 (KeyToPageId P key (dir_page s1)))"
  by (auto simp: Insert_bucket_def Let_def assert_UnpinPage_Inr FetchBucketPage_def
      FetchPage_def GetBucketPageData_def split: sum.splits if_splits)

lemma Insert_bucket_room:
  "Insert_bucket P key v s = Inr (None, s') \<Longrightarrow>
     split_room P key s' = split_room P key s \<and> directory_page_id s' \<noteq> INVALID_PAGE_ID"
proof -
  assume "Insert_bucket P key v s = Inr (None, s')"
  then obtain s1 where f: "FetchDirectoryPage P s = Inr s1"
    and d: "dir_page s' = dir_page s1" "directory_page_id s' = directory_page_id s1"
    using Insert_bucket_None [of P key v s s'] by auto
  from d have "split_room P key s' = split_room P key s1"
    by (simp add: split_room_def key_depth_def)
  with FetchDirectoryPage_room [OF f, of key] d show ?thesis by simp
qed


lemma rewire_slot_simps [simp]:
  "global_depth (rewire_slot p sbi i d) = global_depth d"
  "page_id (rewire_slot p sbi i d) = page_id d"
  "dir_Size (rewire_slot p sbi i d) = dir_Size d"
  "bucket_page_ids (rewire_slot p sbi i d) = (bucket_page_ids d)(i := p)"
  "local_depths (rewire_slot p sbi i d) = (local_depths d)(i := local_depths d sbi)"
  by (simp_all add: rewire_slot_def Let_def dir_Size_def dir_SetLocalDepth_def
      dir_SetBucketPageId_def dir_GetLocalDepth_def)

lemma rewire_down_inv:
  assumes "Q d"
    and "\<And>d j. Q d \<Longrightarrow> j mod diff = i mod diff \<Longrightarrow> Q (rewire_slot p sbi j d)"
  shows "Q (rewire_down diff p sbi i d)"
  using assms
proof (induction diff p sbi i d rule: rewire_down.induct)
  case (1 diff p sbi i d)
  show ?case
  proof (cases "0 < diff \<and> diff \<le> i")
    case True
    have m: "(i - diff) mod diff = i mod diff"
      using True by (simp add: le_mod_geq)
    have "Q (rewire_slot p sbi i d)"
      using "1.prems" by simp
    then have "Q (rewire_down diff p sbi (i - diff) (rewire_slot p sbi i d))"
      using "1.IH" [OF True] "1.prems"(2) m by simp
    then show ?thesis
      using True by (subst rewire_down.simps) simp
  next
    case False
    then show ?thesis
      using "1.prems"(1) by (subst rewire_down.simps) auto
  qed
qed

lemma rewire_up_inv:
  assumes "Q d"
    and "\<And>d j. Q d \<Longrightarrow> j mod diff = i mod diff \<Longrightarrow> Q (rewire_slot p sbi j d)"
  shows "Q (rewire_up diff p sbi i d)"
  using assms
proof (induction diff p sbi i d rule: rewire_up.induct)
  case (1 diff p sbi i d)
  show ?case
  proof (cases "0 < diff \<and> i < dir_Size d")
    case True
    have "Q (rewire_slot p sbi i d)"
      using "1.prems" by simp
    then have "Q (rewire_up diff p sbi (i + diff) (rewire_slot p sbi i d))"
      using "1.IH" [OF True] "1.prems"(2) by simp
    then show ?thesis
      using True by (subst rewire_up.simps) simp
  next
    case False
    then show ?thesis
      using "1.prems"(1) by (subst rewire_up.simps) auto
  qed
qed


lemma rewire_down_frame [simp]:
  "global_depth (rewire_down diff p sbi i d) = global_depth d"
  "page_id (rewire_down diff p sbi i d) = page_id d"
proof -
  have "global_depth (rewire_down diff p sbi i d) = global_depth d \<and>
        page_id (rewire_down diff p sbi i d) = page_id d"
    by (rule rewire_down_inv
        [where Q = "\<lambda>d'. global_depth d' = global_depth d \<and> page_id d' = page_id d"])
       simp_all
  then show "global_depth (rewire_down diff p sbi i d) = global_depth d"
    and "page_id (rewire_down diff p sbi i d) = page_id d" by simp_all
qed

lemma rewire_up_frame [simp]:
  "global_depth (rewire_up diff p sbi i d) = global_depth d"
  "page_id (rewire_up diff p sbi i d) = page_id d"
proof -
  have "global_depth (rewire_up diff p sbi i d) = global_depth d \<and>
        page_id (rewire_up diff p sbi i d) = page_id d"
    by (rule rewire_up_inv
        [where Q = "\<lambda>d'. global_depth d' = global_depth d \<and> page_id d' = page_id d"])
       simp_all
  then show "global_depth (rewire_up diff p sbi i d) = global_depth d"
    and "page_id (rewire_up diff p sbi i d) = page_id d" by simp_all
qed

lemma rewire_directory_frame [simp]:
  "global_depth (rewire_directory d sbi po pn) = global_depth d"
  "page_id (rewire_directory d sbi po pn) = page_id d"
  by (simp_all add: rewire_directory_def Let_def dir_SetLocalDepth_def dir_SetBucketPageId_def)

lemma rewire_down_keeps_depth:
  "local_depths d sbi = L \<Longrightarrow> local_depths d x = L \<Longrightarrow>
     local_depths (rewire_down diff p sbi i d) sbi = L \<and>
     local_depths (rewire_down diff p sbi i d) x = L"
  by (rule rewire_down_inv
      [where Q = "\<lambda>d'. local_depths d' sbi = L \<and> local_depths d' x = L"]) simp_all

lemma rewire_up_keeps_depth:
  "local_depths d sbi = L \<Longrightarrow> local_depths d x = L \<Longrightarrow>
     local_depths (rewire_up diff p sbi i d) sbi = L \<and>
     local_depths (rewire_up diff p sbi i d) x = L"
  by (rule rewire_up_inv
      [where Q = "\<lambda>d'. local_depths d' sbi = L \<and> local_depths d' x = L"]) simp_all

lemma rewire_directory_local_depth:
  assumes "x = sbi \<or> x = dir_GetSplitImageIndex d sbi"
  shows "local_depths (rewire_directory d sbi po pn) x = local_depths d sbi"
proof -
  let ?L = "local_depths d sbi"
  let ?j = "dir_GetSplitImageIndex d sbi"
  let ?d2 = "dir_SetBucketPageId (dir_SetLocalDepth d ?j (dir_GetLocalDepth d sbi)) ?j pn"
  have 0: "local_depths ?d2 sbi = ?L \<and> local_depths ?d2 x = ?L"
    using assms
    by (auto simp: dir_SetLocalDepth_def dir_SetBucketPageId_def dir_GetLocalDepth_def)
  note 1 = rewire_down_keeps_depth [OF conjunct1 [OF 0] conjunct2 [OF 0]]
  note 2 = rewire_up_keeps_depth [OF conjunct1 [OF 1] conjunct2 [OF 1]]
  note 3 = rewire_down_keeps_depth [OF conjunct1 [OF 2] conjunct2 [OF 2]]
  note 4 = rewire_up_keeps_depth [OF conjunct1 [OF 3] conjunct2 [OF 3]]
  show ?thesis
    unfolding rewire_directory_def Let_def by (rule conjunct2 [OF 4])
qed

lemma reinsert_frame:
  "reinsert P sbi po pn xs s = Inr s' \<Longrightarrow>
     dir_page s' = dir_page s \<and> directory_page_id s' = directory_page_id s \<and>
     pin_count s' = pin_count s \<and> is_dirty s' = is_dirty s \<and>
     next_page_id s' = next_page_id s \<and> deleted_pages s' = deleted_pages s"
proof (induction xs arbitrary: s)
  case Nil
  then show ?case by simp
next
  case (Cons x xs)
  let ?t = "dir_GetBucketPageId (dir_page s)
              (Hash P (fst x) AND dir_GetLocalDepthMask (dir_page s) sbi)"
  let ?p = "if ?t = po then po else pn"
  let ?r = "bucket_Insert (fst x) (snd x) (GetBucketPageData s ?p)"
  from Cons.prems have c: "?t = po \<or> ?t = pn"
    by (simp add: Let_def split: if_split_asm)
  with Cons.prems have r: "fst ?r"
    by (simp add: Let_def split: if_split_asm)
  with Cons.prems c have "reinsert P sbi po pn xs (SetBucketPageData ?p (snd ?r) s) = Inr s'"
    by (simp add: Let_def)
  from Cons.IH [OF this] show ?case
    by (simp add: SetBucketPageData_def)
qed


lemma length_bucket_GetArrayCopy: "length (bucket_GetArrayCopy b) = bucket_NumReadable b"
  by (induction b rule: bucket_GetArrayCopy.induct) (simp_all add: bucket_NumReadable_def)

lemma case_sum_Inr_iff:
  "((case m of Inl e \<Rightarrow> Inl e | Inr x \<Rightarrow> f x) = Inr y) = (\<exists>x. m = Inr x \<and> f x = Inr y)"
  by (cases m) auto

lemma grow_directory_simps:
  "global_depth (grow_directory d i L) = (if L = global_depth d then global_depth d + 1 else global_depth d)"
  "page_id (grow_directory d i L) = page_id d"
  "i < 2 ^ global_depth d \<Longrightarrow> local_depths (grow_directory d i L) i = local_depths d i + 1"
  by (simp_all add: grow_directory_def dir_IncrLocalDepth_def dir_IncrGlobalDepth_def
      dir_GetGlobalDepth_def Let_def)

lemma grow_directory_bucket_page_ids:
  "bucket_page_ids (grow_directory d i L) x =
     (if L = global_depth d \<and> 2 ^ global_depth d \<le> x \<and> x < 2 * 2 ^ global_depth d
      then bucket_page_ids d (x - 2 ^ global_depth d) else bucket_page_ids d x)"
  by (simp add: grow_directory_def dir_IncrLocalDepth_def dir_IncrGlobalDepth_def
      dir_GetGlobalDepth_def Let_def)

lemma key_slot_grown:
  fixes h :: nat
  assumes "sbi = h AND (2 ^ global_depth d - 1)" and "L = local_depths d sbi"
  shows "h AND (2 ^ global_depth (grow_directory d sbi L) - 1) = sbi \<or>
         h AND (2 ^ global_depth (grow_directory d sbi L) - 1)
           = dir_GetSplitImageIndex (grow_directory d sbi L) sbi"
proof (cases "L = global_depth d")
  case False
  then show ?thesis using assms by (simp add: grow_directory_simps)
next
  case True
  have lt: "sbi < 2 ^ global_depth d"
    using assms by (simp add: and_mask_mod_Suc)
  have j: "dir_GetSplitImageIndex (grow_directory d sbi L) sbi = sbi + 2 ^ global_depth d"
    using lt True assms(2)
    by (simp add: dir_GetSplitImageIndex_def grow_directory_simps xor_pow2_low)
  show ?thesis
    using mod_pow2_Suc [of h "global_depth d"] True assms(1) j
      and_mask_mod [of h "Suc (global_depth d)"] and_mask_mod [of h "global_depth d"]
    by (simp add: grow_directory_simps)
qed

lemma key_depth_after_split:
  fixes h :: nat
  assumes "sbi = h AND (2 ^ global_depth d - 1)" and "L = local_depths d sbi"
    and "d' = rewire_directory (grow_directory d sbi L) sbi po pn"
  shows "local_depths d' (h AND (2 ^ global_depth d' - 1)) = L + 1"
proof -
  have lt: "sbi < 2 ^ global_depth d"
    using assms by (simp add: and_mask_mod_Suc)
  have "local_depths d' (h AND (2 ^ global_depth (grow_directory d sbi L) - 1))
          = local_depths (grow_directory d sbi L) sbi"
    unfolding assms(3)
    by (rule rewire_directory_local_depth) (rule key_slot_grown [OF assms(1,2)])
  then show ?thesis
    using lt assms by (simp add: grow_directory_simps)
qed


lemma split_bucket_pages_eq:
  "split_bucket_pages P key sbi s =
     (KeyToPageId P key (dir_page s), next_page_id s,
      bucket_GetArrayCopy (bucket_pages s (KeyToPageId P key (dir_page s))),
      snd (snd (snd (split_bucket_pages P key sbi s))))"
  by (simp add: split_bucket_pages_def Let_def NewPage_def FetchBucketPage_def FetchPage_def
      GetBucketPageData_def SetBucketPageData_def length_bucket_GetArrayCopy [symmetric])

definition split_state ::
  "'k params \<Rightarrow> 'k \<Rightarrow> nat \<Rightarrow> ('k, 'v) hash_table \<Rightarrow> ('k, 'v) hash_table" where
  "split_state P key sbi s = snd (snd (snd (split_bucket_pages P key sbi s)))"

lemma split_state_fields:
  "dir_page (split_state P key sbi s) =
     rewire_directory (dir_page s) sbi (KeyToPageId P key (dir_page s)) (next_page_id s)"
  "directory_page_id (split_state P key sbi s) = directory_page_id s"
  "next_page_id (split_state P key sbi s) = next_page_id s + 1"
  "deleted_pages (split_state P key sbi s) = deleted_pages s"
  "is_dirty (split_state P key sbi s) = is_dirty s"
  "bucket_pages (split_state P key sbi s) =
     (bucket_pages s)
       (KeyToPageId P key (dir_page s) :=
          bucket_Reset (bucket_pages s (KeyToPageId P key (dir_page s))),
        next_page_id s := replicate (BUCKET_ARRAY_SIZE P) Unused)"
  "pin_count (split_state P key sbi s) =
     (\<lambda>x. pin_count s x + (if x = KeyToPageId P key (dir_page s) then 1 else 0)
                       + (if x = next_page_id s then 1 else 0))"
  by (auto simp: split_state_def split_bucket_pages_def Let_def NewPage_def FetchBucketPage_def
      FetchPage_def GetBucketPageData_def SetBucketPageData_def fun_eq_iff)

definition grown_state :: "'k params \<Rightarrow> 'k \<Rightarrow> ('k, 'v) hash_table \<Rightarrow> ('k, 'v) hash_table" where
  "grown_state P key s =
     s\<lparr>dir_page := grow_directory (dir_page s) (KeyToDirectoryIndex P key (dir_page s))
                     (dir_GetLocalDepth (dir_page s) (KeyToDirectoryIndex P key (dir_page s)))\<rparr>"

lemma SplitInsert_split_True:
  assumes "SplitInsert_split P key s = Inr (True, s')"
  shows "\<exists>s1 s6. FetchDirectoryPage P s = Inr s1 \<and> key_depth P key s1 < MAX_BUCKET_DEPTH P \<and>
     reinsert P (KeyToDirectoryIndex P key (dir_page s1))
       (KeyToPageId P key (dir_page (grown_state P key s1))) (next_page_id s1)
       (bucket_GetArrayCopy
          (bucket_pages s1 (KeyToPageId P key (dir_page (grown_state P key s1)))))
       (split_state P key (KeyToDirectoryIndex P key (dir_page s1)) (grown_state P key s1))
       = Inr s6 \<and>
     unpin_split_pages (KeyToPageId P key (dir_page (grown_state P key s1)))
       (next_page_id s1) s6 = Inr s'"
proof -
  from assms obtain s1 where f: "FetchDirectoryPage P s = Inr s1"
    by (cases "FetchDirectoryPage P s") (simp_all add: SplitInsert_split_def)
  have m: "key_depth P key s1 < MAX_BUCKET_DEPTH P"
  proof (rule ccontr)
    assume "\<not> key_depth P key s1 < MAX_BUCKET_DEPTH P"
    with assms f show False
      by (simp add: SplitInsert_split_def key_depth_def Let_def case_sum_Inr_iff)
  qed
  let ?g = "grown_state P key s1"
  let ?i = "KeyToDirectoryIndex P key (dir_page s1)"
  have e: "split_bucket_pages P key ?i ?g =
      (KeyToPageId P key (dir_page ?g), next_page_id s1,
       bucket_GetArrayCopy (bucket_pages s1 (KeyToPageId P key (dir_page ?g))),
       split_state P key ?i ?g)"
    by (subst split_bucket_pages_eq) (simp add: split_state_def grown_state_def)
  from assms f m show ?thesis
    unfolding SplitInsert_split_def
    by (simp add: key_depth_def Let_def e [unfolded grown_state_def] grown_state_def
        case_sum_Inr_iff)
qed

lemma unpin_split_pages_frame:
  "unpin_split_pages po pn s = Inr s' \<Longrightarrow>
     dir_page s' = dir_page s \<and> directory_page_id s' = directory_page_id s \<and>
     bucket_pages s' = bucket_pages s \<and> next_page_id s' = next_page_id s \<and>
     deleted_pages s' = deleted_pages s"
  by (auto simp: unpin_split_pages_def case_sum_Inr_iff assert_UnpinPage_Inr)

lemma SplitInsert_split_room:
  assumes "SplitInsert_split P key s = Inr (True, s')"
  shows "split_room P key s' < split_room P key s \<and> directory_page_id s' \<noteq> INVALID_PAGE_ID"
proof -
  from SplitInsert_split_True [OF assms] obtain s1 s6 where
    f: "FetchDirectoryPage P s = Inr s1" and m: "key_depth P key s1 < MAX_BUCKET_DEPTH P"
    and r: "reinsert P (KeyToDirectoryIndex P key (dir_page s1))
       (KeyToPageId P key (dir_page (grown_state P key s1))) (next_page_id s1)
       (bucket_GetArrayCopy
          (bucket_pages s1 (KeyToPageId P key (dir_page (grown_state P key s1)))))
       (split_state P key (KeyToDirectoryIndex P key (dir_page s1)) (grown_state P key s1))
       = Inr s6"
    and u: "unpin_split_pages (KeyToPageId P key (dir_page (grown_state P key s1)))
       (next_page_id s1) s6 = Inr s'"
    by blast
  have d: "dir_page s' =
      rewire_directory
        (grow_directory (dir_page s1) (KeyToDirectoryIndex P key (dir_page s1))
           (local_depths (dir_page s1) (KeyToDirectoryIndex P key (dir_page s1))))
        (KeyToDirectoryIndex P key (dir_page s1))
        (KeyToPageId P key (dir_page (grown_state P key s1))) (next_page_id s1)"
    and i: "directory_page_id s' = directory_page_id s1"
    using unpin_split_pages_frame [OF u] reinsert_frame [OF r]
    by (simp_all add: split_state_fields grown_state_def dir_GetLocalDepth_def)
  have "key_depth P key s' = key_depth P key s1 + 1"
    unfolding key_depth_def dir_GetLocalDepth_def KeyToDirectoryIndex_def
      dir_GetGlobalDepthMask_def
    by (rule key_depth_after_split [OF _ _ d [unfolded KeyToDirectoryIndex_def dir_GetGlobalDepthMask_def]])
       simp_all
  with m i FetchDirectoryPage_key_depth [OF f, of key] FetchDirectoryPage_Inr [OF f]
  show ?thesis
    by (auto simp: split_room_def)
qed


text \<open>
  \<^verbatim>\<open>Insert\<close> and \<^verbatim>\<open>SplitInsert\<close> call each other in tail position.  The recursion
  terminates: every split raises the local depth of the slot of the key by one, and
  \<^verbatim>\<open>SplitInsert\<close> stops at \<^verbatim>\<open>MAX_BUCKET_DEPTH\<close>.
\<close>

function Insert ::
  "'k params \<Rightarrow> 'k \<Rightarrow> 'v \<Rightarrow> ('k, 'v) hash_table \<Rightarrow> abort + (bool \<times> ('k, 'v) hash_table)"
  and SplitInsert ::
  "'k params \<Rightarrow> 'k \<Rightarrow> 'v \<Rightarrow> ('k, 'v) hash_table \<Rightarrow> abort + (bool \<times> ('k, 'v) hash_table)"
  where
  "Insert P key v s =
     (case Insert_bucket P key v s of
        Inl e \<Rightarrow> Inl e
      | Inr (Some ret, s') \<Rightarrow> Inr (ret, s')
      | Inr (None, s') \<Rightarrow> SplitInsert P key v s')"
| "SplitInsert P key v s =
     (case SplitInsert_split P key s of
        Inl e \<Rightarrow> Inl e
      | Inr (False, s') \<Rightarrow> Inr (False, s')
      | Inr (True, s') \<Rightarrow> Insert P key v s')"
  by pat_completeness auto
termination
proof (relation "measure (\<lambda>x. case x of
          Inl (P, key, v, s) \<Rightarrow> 2 * split_room P key s + 1
        | Inr (P, key, v, s) \<Rightarrow> 2 * split_room P key s)", goal_cases)
  case 1
  show ?case by simp
next
  case (2 P key v s b x y)
  then have "Insert_bucket P key v s = Inr (None, y)" by simp
  from Insert_bucket_room [OF this] show ?case by simp
next
  case (3 P key v s b x y)
  then have "SplitInsert_split P key s = Inr (True, y)" by auto
  from SplitInsert_split_room [OF this] show ?case by simp
qed


declare Insert.simps [simp del] SplitInsert.simps [simp del]

subsection \<open>A single-threaded client\<close>

text \<open>
  A sequence of calls of the public operations by one thread, each on the state the
  previous call left.  The run stops at the first assertion that fails.
\<close>

datatype ('k, 'v) operation = OpInsert 'k 'v | OpRemove 'k 'v | OpGetValue 'k

datatype 'v outcome = Returned bool | Found bool "'v list"

fun run_op ::
  "'k params \<Rightarrow> ('k, 'v) operation \<Rightarrow> ('k, 'v) hash_table
     \<Rightarrow> abort + ('v outcome \<times> ('k, 'v) hash_table)" where
  "run_op P (OpInsert k v) s = map_sum id (\<lambda>r. (Returned (fst r), snd r)) (Insert P k v s)"
| "run_op P (OpRemove k v) s = map_sum id (\<lambda>r. (Returned (fst r), snd r)) (Remove P k v s)"
| "run_op P (OpGetValue k) s =
     map_sum id (\<lambda>r. (Found (fst (fst r)) (snd (fst r)), snd r)) (GetValue P k [] s)"

fun run_ops ::
  "'k params \<Rightarrow> ('k, 'v) operation list \<Rightarrow> ('k, 'v) hash_table
     \<Rightarrow> abort + ('v outcome list \<times> ('k, 'v) hash_table)" where
  "run_ops P [] s = Inr ([], s)"
| "run_ops P (x # xs) s =
     (case run_op P x s of
        Inl e \<Rightarrow> Inl e
      | Inr r \<Rightarrow>
          (case run_ops P xs (snd r) of
             Inl e \<Rightarrow> Inl e
           | Inr rs \<Rightarrow> Inr (fst r # fst rs, snd rs)))"

text \<open>
  The small table of the scenarios of the specification: buckets of two slots, natural
  numbers as keys, hashed to themselves, and the maximal depth 9.
\<close>

definition small_table :: "nat params" where
  "small_table = \<lparr>BUCKET_ARRAY_SIZE = 2, MAX_BUCKET_DEPTH = 9, hash_fn = (\<lambda>k. k)\<rparr>"

lemma replicate_2: "replicate 2 x = [x, x]"
  by (simp add: numeral_2_eq_2)

lemmas table_eval =
  INVALID_PAGE_ID_def bucket_IsFull_def bucket_IsEmpty_def bucket_NumReadable_def
  bucket_Reset_def bucket_GetValue_def bucket_Insert_def bucket_Remove_def
  dir_GetPageId_def dir_SetPageId_def dir_GetGlobalDepth_def dir_GetGlobalDepthMask_def
  dir_Size_def dir_GetLocalDepth_def dir_SetLocalDepth_def dir_GetLocalDepthMask_def
  dir_GetBucketPageId_def dir_SetBucketPageId_def dir_IncrGlobalDepth_def
  dir_DecrGlobalDepth_def dir_IncrLocalDepth_def dir_DecrLocalDepth_def
  dir_GetSplitImageIndex_def dir_CanShrink_def zero_directory_def
  NewPage_def FetchPage_def UnpinPage_def DeletePage_def assert_UnpinPage_def
  assert_DeletePage_def new_table_def Hash_def KeyToDirectoryIndex_def KeyToPageId_def
  create_directory_def FetchDirectoryPage_def FetchBucketPage_def GetBucketPageData_def
  SetBucketPageData_def GetValue_def Insert_bucket_def rewire_slot_def
  rewire_down.simps rewire_up.simps rewire_directory_def grow_directory_def
  split_bucket_pages_def unpin_split_pages_def SplitInsert_split_def
  merge_rewire.simps shrink_directory.simps Merge_def Remove_def Let_def
  Insert.simps SplitInsert.simps small_table_def replicate_2

subsection \<open>Facts about pins and the directory page id\<close>

text \<open>
  The directory page stores its own page id (\<^verbatim>\<open>SetPageId\<close> at creation); the controller
  unpins the directory under that id and fetches it under \<^verbatim>\<open>directory_page_id_\<close>.  In
  every state the table reaches, the two agree once the directory exists.
\<close>

definition directory_id_ok :: "('k, 'v) hash_table \<Rightarrow> bool" where
  "directory_id_ok s =
     (directory_page_id s = INVALID_PAGE_ID \<or> dir_GetPageId (dir_page s) = directory_page_id s)"

lemma FetchDirectoryPage_id_ok:
  assumes "FetchDirectoryPage P s = Inr s1" and "directory_id_ok s"
  shows "page_id (dir_page s1) = directory_page_id s1"
proof (cases "directory_page_id s = INVALID_PAGE_ID")
  case True
  from FetchDirectoryPage_fresh [OF assms(1) True] show ?thesis by simp
next
  case False
  with assms show ?thesis
    by (auto simp: FetchDirectoryPage_valid FetchPage_def directory_id_ok_def dir_GetPageId_def)
qed

lemma assert_UnpinPage_pin:
  "assert_UnpinPage p dty s = Inr s' \<Longrightarrow>
     pin_count s' x + (if x = p then 1 else 0) = pin_count s x"
  by (auto simp: assert_UnpinPage_Inr)

lemma assert_UnpinPage_frame:
  "assert_UnpinPage p dty s = Inr s' \<Longrightarrow>
     dir_page s' = dir_page s \<and> directory_page_id s' = directory_page_id s \<and>
     bucket_pages s' = bucket_pages s \<and> next_page_id s' = next_page_id s \<and>
     deleted_pages s' = deleted_pages s"
  by (auto simp: assert_UnpinPage_Inr)

lemma unpin_after_fetch: "assert_UnpinPage p False (FetchPage p s) = Inr s"
  by (simp add: assert_UnpinPage_Inr FetchPage_def)

lemma FetchPage_fields [simp]:
  "dir_page (FetchPage p s) = dir_page s"
  "directory_page_id (FetchPage p s) = directory_page_id s"
  "bucket_pages (FetchPage p s) = bucket_pages s"
  "next_page_id (FetchPage p s) = next_page_id s"
  "deleted_pages (FetchPage p s) = deleted_pages s"
  "is_dirty (FetchPage p s) = is_dirty s"
  "pin_count (FetchPage p s) x = pin_count s x + (if x = p then 1 else 0)"
  by (simp_all add: FetchPage_def)

text \<open>The state the small table is in after a sequence of calls on a new table.\<close>

definition state_after :: "(nat, nat) operation list \<Rightarrow> (nat, nat) hash_table" where
  "state_after ops =
     (case run_ops small_table ops new_table of Inl e \<Rightarrow> new_table | Inr r \<Rightarrow> snd r)"

lemma FetchDirectoryPage_pin:
  "FetchDirectoryPage P s = Inr s1 \<Longrightarrow>
     pin_count s1 x = pin_count s x + (if x = directory_page_id s1 then 1 else 0)"
  by (drule FetchDirectoryPage_Inr) auto

lemma FetchDirectoryPage_ok:
  assumes "FetchDirectoryPage P s = Inr s1" and "directory_id_ok s"
  shows "dir_GetPageId (dir_page s1) = directory_page_id s1"
    and "directory_page_id s1 \<noteq> INVALID_PAGE_ID"
  using FetchDirectoryPage_id_ok [OF assms] FetchDirectoryPage_Inr [OF assms(1)]
  by (simp_all add: dir_GetPageId_def)

lemma Insert_bucket_pins:
  assumes "Insert_bucket P key v s = Inr (r, s')" and "directory_id_ok s"
  shows "pin_count s' = pin_count s \<and> directory_id_ok s'"
proof -
  from assms(1) obtain s1 where f: "FetchDirectoryPage P s = Inr s1"
    by (cases "FetchDirectoryPage P s") (simp_all add: Insert_bucket_def)
  note ok = FetchDirectoryPage_ok [OF f assms(2)]
  have p: "\<And>x. pin_count s1 x = pin_count s x + (if x = directory_page_id s1 then 1 else 0)"
    by (rule FetchDirectoryPage_pin [OF f])
  from assms(1) f ok show ?thesis
    by (auto simp: Insert_bucket_def Let_def case_sum_Inr_iff assert_UnpinPage_Inr
        FetchBucketPage_def FetchPage_def SetBucketPageData_def GetBucketPageData_def
        directory_id_ok_def fun_eq_iff p split: if_splits)
qed

lemma GetValue_pins:
  assumes "GetValue P key res s = Inr (r, s')" and "directory_id_ok s"
  shows "pin_count s' = pin_count s \<and> directory_id_ok s'"
proof -
  from assms(1) obtain s1 where f: "FetchDirectoryPage P s = Inr s1"
    by (cases "FetchDirectoryPage P s") (simp_all add: GetValue_def)
  note ok = FetchDirectoryPage_ok [OF f assms(2)]
  have p: "\<And>x. pin_count s1 x = pin_count s x + (if x = directory_page_id s1 then 1 else 0)"
    by (rule FetchDirectoryPage_pin [OF f])
  from assms(1) f ok show ?thesis
    by (auto simp: GetValue_def Let_def case_sum_Inr_iff assert_UnpinPage_Inr
        FetchBucketPage_def FetchPage_def GetBucketPageData_def
        directory_id_ok_def fun_eq_iff p split: if_splits)
qed

lemma GetGlobalDepth_pins:
  assumes "GetGlobalDepth P s = Inr (r, s')" and "directory_id_ok s"
  shows "pin_count s' = pin_count s \<and> directory_id_ok s'"
proof -
  from assms(1) obtain s1 where f: "FetchDirectoryPage P s = Inr s1"
    by (cases "FetchDirectoryPage P s") (simp_all add: GetGlobalDepth_def)
  note ok = FetchDirectoryPage_ok [OF f assms(2)]
  have p: "\<And>x. pin_count s1 x = pin_count s x + (if x = directory_page_id s1 then 1 else 0)"
    by (rule FetchDirectoryPage_pin [OF f])
  from assms(1) f ok show ?thesis
    by (auto simp: GetGlobalDepth_def case_sum_Inr_iff assert_UnpinPage_Inr
        directory_id_ok_def fun_eq_iff p split: if_splits)
qed

lemma VerifyIntegrity_pins:
  assumes "VerifyIntegrity P s = Inr s'" and "directory_id_ok s"
  shows "pin_count s' = pin_count s \<and> directory_id_ok s'"
proof -
  from assms(1) obtain s1 where f: "FetchDirectoryPage P s = Inr s1"
    by (cases "FetchDirectoryPage P s") (simp_all add: VerifyIntegrity_def)
  note ok = FetchDirectoryPage_ok [OF f assms(2)]
  have p: "\<And>x. pin_count s1 x = pin_count s x + (if x = directory_page_id s1 then 1 else 0)"
    by (rule FetchDirectoryPage_pin [OF f])
  from assms(1) f ok show ?thesis
    by (auto simp: VerifyIntegrity_def case_sum_Inr_iff assert_UnpinPage_Inr
        directory_id_ok_def fun_eq_iff p split: if_splits)
qed


lemma Insert_rounds_induct:
  assumes fast: "\<And>s r s'. Insert_bucket P key v s = Inr (Some r, s') \<Longrightarrow> R s (r, s')"
    and full: "\<And>s s1 s2. Insert_bucket P key v s = Inr (None, s1) \<Longrightarrow>
                 SplitInsert_split P key s1 = Inr (False, s2) \<Longrightarrow> R s (False, s2)"
    and step: "\<And>s s1 s2 res. Insert_bucket P key v s = Inr (None, s1) \<Longrightarrow>
                 SplitInsert_split P key s1 = Inr (True, s2) \<Longrightarrow> R s2 res \<Longrightarrow> R s res"
  shows "Insert P key v s = Inr res \<Longrightarrow> R s res"
proof -
  have "(\<forall>res. P' = P \<longrightarrow> key' = key \<longrightarrow> v' = v \<longrightarrow>
            Insert P' key' v' s = Inr res \<longrightarrow> R s res)"
    and "(\<forall>res s0. P' = P \<longrightarrow> key' = key \<longrightarrow> v' = v \<longrightarrow>
            Insert_bucket P' key' v' s0 = Inr (None, s) \<longrightarrow>
            SplitInsert P' key' v' s = Inr res \<longrightarrow> R s0 res)" for P' key' v'
  proof (induction P' key' v' s and P' key' v' s rule: Insert_SplitInsert.induct)
    case (1 P' key' v' s)
    show ?case
    proof (intro allI impI)
      fix res
      assume e: "P' = P" "key' = key" "v' = v" and i: "Insert P' key' v' s = Inr res"
      show "R s res"
      proof (cases "Insert_bucket P key v s")
        case (Inl a)
        with i e show ?thesis by (simp add: Insert.simps)
      next
        case (Inr b)
        obtain x y where b: "b = (x, y)" by (cases b)
        show ?thesis
        proof (cases x)
          case None
          with Inr b i e have c: "SplitInsert P key v y = Inr res"
            by (simp add: Insert.simps)
          from "1.IH" [of b x y] Inr b None e
          have "\<forall>res s0. Insert_bucket P key v s0 = Inr (None, y) \<longrightarrow>
                  SplitInsert P key v y = Inr res \<longrightarrow> R s0 res"
            by simp
          with c Inr b None show ?thesis by blast
        next
          case (Some r)
          with Inr b i e have "res = (r, y)" by (simp add: Insert.simps)
          with fast Inr b Some show ?thesis by simp
        qed
      qed
    qed
  next
    case (2 P' key' v' s)
    show ?case
    proof (intro allI impI)
      fix res s0
      assume e: "P' = P" "key' = key" "v' = v"
        and b0: "Insert_bucket P' key' v' s0 = Inr (None, s)"
        and i: "SplitInsert P' key' v' s = Inr res"
      show "R s0 res"
      proof (cases "SplitInsert_split P key s")
        case (Inl a)
        with i e show ?thesis by (simp add: SplitInsert.simps)
      next
        case (Inr b)
        obtain x y where b: "b = (x, y)" by (cases b)
        show ?thesis
        proof (cases x)
          case True
          with Inr b i e have c: "Insert P key v y = Inr res"
            by (simp add: SplitInsert.simps)
          from "2.IH" [of b x y] Inr b True e
          have "\<forall>res. Insert P key v y = Inr res \<longrightarrow> R y res"
            by simp
          with c have "R y res" by blast
          with step b0 e Inr b True show ?thesis by simp
        next
          case False
          with Inr b i e have "res = (False, y)" by (simp add: SplitInsert.simps)
          with full b0 e Inr b False show ?thesis by simp
        qed
      qed
    qed
  qed
  then show "Insert P key v s = Inr res \<Longrightarrow> R s res" by simp
qed

section \<open>The claims\<close>




text \<open>
  C4 (Merge skips without a change).  When the directory exists and \<open>Merge\<close> finds the
  local depth of the target slot 0, or different from the local depth of its split image,
  or finds the target bucket not empty, it returns the state it was called in: the
  directory, every bucket, every pin count and every dirty flag are as before (the pages
  it touched are fetched and unpinned with \<open>dirty = false\<close>).
\<close>

theorem Merge_skip_unchanged:
  assumes "directory_page_id s \<noteq> INVALID_PAGE_ID"
    and "dir_GetPageId (dir_page s) = directory_page_id s"
    and "dir_GetLocalDepth (dir_page s) target_bucket_index = 0
         \<or> dir_GetLocalDepth (dir_page s) target_bucket_index
             \<noteq> dir_GetLocalDepth (dir_page s)
                  (dir_GetSplitImageIndex (dir_page s) target_bucket_index)
         \<or> \<not> bucket_IsEmpty
               (GetBucketPageData s (dir_GetBucketPageId (dir_page s) target_bucket_index))"
  shows "Merge P target_bucket_index s = Inr s"
proof -
  let ?d = "directory_page_id s"
  let ?tp = "dir_GetBucketPageId (dir_page s) target_bucket_index"
  have f: "FetchDirectoryPage P s = Inr (FetchPage ?d s)"
    using assms(1) by (rule FetchDirectoryPage_valid)
  have u: "assert_UnpinPage (dir_GetPageId (dir_page s)) False (FetchPage ?d s) = Inr s"
    using assms(2) by (simp add: unpin_after_fetch)
  have u2: "assert_UnpinPage ?tp False (FetchPage ?tp (FetchPage ?d s)) = Inr (FetchPage ?d s)"
    by (rule unpin_after_fetch)
  show ?thesis
    using assms(3)
    by (auto simp: Merge_def f u u2 Let_def GetBucketPageData_def FetchBucketPage_def
        simp del: FetchPage_fields(7))
qed

text \<open>
  The three reasons to skip, each in a state the small table reaches: local depth 0 after
  one insert; after the inserts of keys 1, 3, 5 slot 0 has local depth 1 and its image,
  slot 1, local depth 2; and the bucket of slot 1 is not empty.
\<close>

theorem Merge_skip_unchanged_witness:
  "Merge small_table 0 (state_after [OpInsert 1 10]) = Inr (state_after [OpInsert 1 10]) \<and>
   Merge small_table 0 (state_after [OpInsert 1 10, OpInsert 3 30, OpInsert 5 50])
     = Inr (state_after [OpInsert 1 10, OpInsert 3 30, OpInsert 5 50]) \<and>
   Merge small_table 1 (state_after [OpInsert 1 10, OpInsert 3 30, OpInsert 5 50])
     = Inr (state_after [OpInsert 1 10, OpInsert 3 30, OpInsert 5 50])"
proof -
  let ?s = "state_after [OpInsert 1 10]"
  let ?t = "state_after [OpInsert 1 10, OpInsert 3 30, OpInsert 5 50]"
  have s1: "directory_page_id ?s \<noteq> INVALID_PAGE_ID"
    and s2: "dir_GetPageId (dir_page ?s) = directory_page_id ?s"
    and s3: "dir_GetLocalDepth (dir_page ?s) 0 = 0"
    by (simp_all add: state_after_def table_eval split del: if_split cong: let_weak_cong)
  have t1: "directory_page_id ?t \<noteq> INVALID_PAGE_ID"
    and t2: "dir_GetPageId (dir_page ?t) = directory_page_id ?t"
    and t3: "dir_GetLocalDepth (dir_page ?t) 0
               \<noteq> dir_GetLocalDepth (dir_page ?t) (dir_GetSplitImageIndex (dir_page ?t) 0)"
    and t4: "\<not> bucket_IsEmpty
                 (GetBucketPageData ?t (dir_GetBucketPageId (dir_page ?t) 1))"
    by (simp_all add: state_after_def table_eval split del: if_split cong: let_weak_cong)
  show ?thesis
    using Merge_skip_unchanged [OF s1 s2 disjI1 [OF s3], of small_table]
      Merge_skip_unchanged [OF t1 t2 disjI2 [OF disjI1 [OF t3]], of small_table]
      Merge_skip_unchanged [OF t1 t2 disjI2 [OF disjI2 [OF t4]], of small_table]
    by (intro conjI)
qed

end
